theory Spec2Isabelle
  imports Main
begin

section \<open>Python primitives used by the scale engine\<close>

text \<open>
  The exceptions the engine can raise. The first five are the names the source puts at the
  head of the message of the exception it raises (\<^verbatim>\<open>raise Exception(f"InvalidNoteLetterError:
  ...")\<close> and so on); the last three are Python's own exceptions: \<open>IndexError\<close> from indexing
  an empty string and from \<^verbatim>\<open>random.choice\<close> on an empty sequence, \<open>KeyError\<close> from a dictionary
  lookup, \<open>ValueError\<close> from \<^verbatim>\<open>chr\<close> out of range.
\<close>

datatype error =
    InvalidNoteLetterError
  | InvalidOctaveError
  | BadSizedScaleJumpError
  | InvalidScaleSizeError
  | NoteNotEffectedByKeySignatureError
  | IndexError
  | KeyError
  | ValueError

text \<open>
  Note strings are modelled as \<^typ>\<open>string\<close>: a list of 8-bit characters. \<open>ord\<close> is the
  code of a character; \<open>chr8\<close> is \<^verbatim>\<open>chr\<close> where the source applies it to a code in the
  range of the letters.
\<close>

definition ord :: "char \<Rightarrow> int" where
  "ord c = of_char c"

definition chr8 :: "int \<Rightarrow> char" where
  "chr8 i = char_of i"

text \<open>
  \<^verbatim>\<open>int(c)\<close> on a one-character string: among 8-bit characters exactly the ten ASCII
  digits are accepted, every other character raises \<^verbatim>\<open>ValueError\<close> (here \<open>None\<close>).
\<close>

definition py_int :: "char \<Rightarrow> int option" where
  "py_int c = (if ord CHR ''0'' \<le> ord c \<and> ord c \<le> ord CHR ''9''
               then Some (ord c - ord CHR ''0'') else None)"

text \<open>\<^verbatim>\<open>str(i)\<close> of an integer: its decimal digits, with a minus sign when negative.\<close>

fun digits :: "nat \<Rightarrow> string" where
  "digits n = (if n < 10 then [''0123456789'' ! n]
               else digits (n div 10) @ [''0123456789'' ! (n mod 10)])"

definition str_int :: "int \<Rightarrow> string" where
  "str_int i = (if i < 0 then CHR ''-'' # digits (nat (- i)) else digits (nat i))"

text \<open>
  Python slices \<^verbatim>\<open>xs[i:j]\<close>, \<^verbatim>\<open>xs[i:]\<close> and \<^verbatim>\<open>xs[:j]\<close>: a negative index counts from the end,
  and every index is clamped to the list.
\<close>

definition slice_idx :: "nat \<Rightarrow> int \<Rightarrow> nat" where
  "slice_idx n i = (if i < 0 then nat (int n + i) else min (nat i) n)"

definition py_slice :: "'a list \<Rightarrow> int \<Rightarrow> int \<Rightarrow> 'a list" where
  "py_slice xs i j =
     (let a = slice_idx (length xs) i; b = slice_idx (length xs) j
      in take (b - a) (drop a xs))"

definition py_slice_from :: "'a list \<Rightarrow> int \<Rightarrow> 'a list" where
  "py_slice_from xs i = drop (slice_idx (length xs) i) xs"

definition py_slice_to :: "'a list \<Rightarrow> int \<Rightarrow> 'a list" where
  "py_slice_to xs j = take (slice_idx (length xs) j) xs"

text \<open>\<^verbatim>\<open>c * k\<close> for a one-character string \<open>c\<close>: empty when \<open>k\<close> is not positive.\<close>

definition str_mul :: "char \<Rightarrow> int \<Rightarrow> string" where
  "str_mul c k = replicate (nat k) c"

text \<open>A Python \<^verbatim>\<open>bool\<close> used as a number.\<close>

definition bool_int :: "bool \<Rightarrow> int" where
  "bool_int b = (if b then 1 else 0)"

section \<open>useful.py\<close>

definition pm_bool :: "bool \<Rightarrow> int" where
  "pm_bool b = bool_int b * 2 - 1"

definition int_from_pattern :: "char \<Rightarrow> int" where
  "int_from_pattern pattern_char =
     (if pattern_char = CHR ''H'' then 1
      else if pattern_char = CHR ''W'' then 2
      else if pattern_char = CHR ''3'' then 3
      else 0)"

definition ensure_octave :: "int list \<Rightarrow> bool" where
  "ensure_octave pattern = (sum_list pattern = 12)"

definition get_next_letter :: "char \<Rightarrow> char" where
  "get_next_letter letter =
     (let num = ord letter - ord CHR ''A'' + 1;
          num = num mod 7
      in chr8 (num + ord CHR ''A''))"

text \<open>\<^verbatim>\<open>cmp\<close> is used on integers and on strings; strings compare by code, lexicographically.\<close>

definition cmp_int :: "int \<Rightarrow> int \<Rightarrow> int" where
  "cmp_int a b = bool_int (a > b) - bool_int (a < b)"

fun str_less :: "string \<Rightarrow> string \<Rightarrow> bool" where
  "str_less [] [] = False"
| "str_less [] (y # ys) = True"
| "str_less (x # xs) [] = False"
| "str_less (x # xs) (y # ys) = (ord x < ord y \<or> (ord x = ord y \<and> str_less xs ys))"

definition cmp_str :: "string \<Rightarrow> string \<Rightarrow> int" where
  "cmp_str a b = bool_int (str_less b a) - bool_int (str_less a b)"

text \<open>
  \<^verbatim>\<open>choice\<close>: \<^verbatim>\<open>random.choice(list(iterable))\<close>. The random source is the number \<open>r\<close>; an
  empty sequence raises \<open>IndexError\<close>.
\<close>

definition choice :: "'a list \<Rightarrow> nat \<Rightarrow> error + 'a" where
  "choice xs r = (if xs = [] then Inl IndexError else Inr (xs ! (r mod length xs)))"

section \<open>scale.py: constants\<close>

definition SHARP :: char where
  "SHARP = CHR ''#''"

definition FLAT :: char where
  "FLAT = CHR ''b''"

definition ORDER_OF_SHARPS :: string where
  "ORDER_OF_SHARPS = ''FCGDAEB''"

definition LETTERS_PER_OCTAVE :: int where
  "LETTERS_PER_OCTAVE = int (length ORDER_OF_SHARPS)"

definition STAFF_LINES :: int where
  "STAFF_LINES = 5"

definition STAFF_SPACES :: int where
  "STAFF_SPACES = 4"

definition LEDGER_LINES :: int where
  "LEDGER_LINES = 4"

definition TOTAL_NOTES :: int where
  "TOTAL_NOTES = STAFF_LINES + STAFF_SPACES + 2 * LEDGER_LINES"

definition NOTES_START :: int where
  "NOTES_START = 0xE000"

definition FLATS_START :: int where
  "FLATS_START = 0xE020"

definition NATURALS_START :: int where
  "NATURALS_START = 0xE040"

definition SHARPS_START :: int where
  "SHARPS_START = 0xE060"

definition ACCIDENTALS_START :: "char \<Rightarrow> int option" where
  "ACCIDENTALS_START = [SHARP \<mapsto> SHARPS_START, FLAT \<mapsto> FLATS_START]"

section \<open>scale.py: Note\<close>

record Note =
  letter :: char
  sharp_flat :: string
  octave :: int

text \<open>The loop of the constructor over \<^verbatim>\<open>note[1:-1]\<close>, counting sharps up and flats down.\<close>

fun count_accidentals :: "string \<Rightarrow> int \<Rightarrow> int" where
  "count_accidentals [] sharps_flats = sharps_flats"
| "count_accidentals (accidental # rest) sharps_flats =
     count_accidentals rest
       (if accidental = CHR ''#'' then sharps_flats + 1
        else if accidental = CHR ''b'' then sharps_flats - 1
        else sharps_flats)"

text \<open>
  \<^verbatim>\<open>Note.__init__\<close>. \<^verbatim>\<open>note[0]\<close> on the empty string raises \<open>IndexError\<close>; the letter is
  the first character, the octave the last one, and only \<^verbatim>\<open>#\<close> and \<^verbatim>\<open>b\<close> between them count.
\<close>

definition Note_init :: "string \<Rightarrow> error + Note" where
  "Note_init note =
     (case note of
        [] \<Rightarrow> Inl IndexError
      | c # _ \<Rightarrow>
          if ord CHR ''A'' \<le> ord c \<and> ord c \<le> ord CHR ''G'' then
            (case py_int (last note) of
               None \<Rightarrow> Inl InvalidOctaveError
             | Some oct \<Rightarrow>
                 let sharps_flats = count_accidentals (py_slice note 1 (- 1)) 0
                 in Inr \<lparr>letter = c,
                         sharp_flat = str_mul SHARP sharps_flats @ str_mul FLAT (- sharps_flats),
                         octave = oct\<rparr>)
          else Inl InvalidNoteLetterError)"

definition get_sharp_flat :: "Note \<Rightarrow> int" where
  "get_sharp_flat self =
     (if sharp_flat self = [] then 0
      else int (length (sharp_flat self)) * pm_bool (hd (sharp_flat self) = SHARP))"

text \<open>
  \<^verbatim>\<open>Note.up_by\<close>. Only the case 7 of the \<^verbatim>\<open>match\<close> does anything; the result is built as
  a string and parsed again by the constructor.
\<close>

definition up_by :: "Note \<Rightarrow> int \<Rightarrow> int \<Rightarrow> error + Note" where
  "up_by self half_steps scale_length =
     (if \<not> (1 \<le> half_steps \<and> half_steps \<le> 3) then Inl BadSizedScaleJumpError
      else
        let temp_letter = letter self;
            temp_sharp_flat_num = get_sharp_flat self + half_steps;
            temp_octave = octave self;
            (temp_letter, temp_sharp_flat_num, temp_octave) =
              (if scale_length = 7 then
                 (get_next_letter (letter self),
                  temp_sharp_flat_num - (if letter self \<in> set [CHR ''B'', CHR ''E''] then 1 else 2),
                  temp_octave + (if letter self = CHR ''B'' then 1 else 0))
               else (temp_letter, temp_sharp_flat_num, temp_octave));
            temp_sharp_flat = str_mul SHARP temp_sharp_flat_num @ str_mul FLAT (- temp_sharp_flat_num)
        in Note_init (temp_letter # temp_sharp_flat @ str_int temp_octave))"

text \<open>
  The loop of \<^verbatim>\<open>Scale.__repr__\<close>: \<^verbatim>\<open>this_note = this_note.up_by(up_by, len(self.pattern))\<close> for
  each step of the pattern, the scale length passed along.
\<close>

fun up_by_pattern :: "Note \<Rightarrow> int list \<Rightarrow> int \<Rightarrow> error + Note" where
  "up_by_pattern this_note [] scale_length = Inr this_note"
| "up_by_pattern this_note (step # rest) scale_length =
     (case up_by this_note step scale_length of
        Inl e \<Rightarrow> Inl e
      | Inr next_note \<Rightarrow> up_by_pattern next_note rest scale_length)"

text \<open>
  The Notes the constructor can build: a letter A to G, a run of sharps or a run of flats,
  and a one-digit octave. Lemmas \<open>Note_init_valid\<close> and \<open>valid_note_built\<close> below show that
  these are exactly the values of \<open>Note_init\<close>.
\<close>

definition is_letter :: "char \<Rightarrow> bool" where
  "is_letter c = (c \<in> set ''ABCDEFG'')"

definition valid_note :: "Note \<Rightarrow> bool" where
  "valid_note n =
     (is_letter (letter n) \<and>
      (sharp_flat n = replicate (length (sharp_flat n)) SHARP \<or>
       sharp_flat n = replicate (length (sharp_flat n)) FLAT) \<and>
      0 \<le> octave n \<and> octave n \<le> 9)"

text \<open>The Note with letter \<open>l\<close>, accidental count \<open>k\<close> and octave \<open>oct\<close>.\<close>

definition mk_note :: "char \<Rightarrow> int \<Rightarrow> int \<Rightarrow> Note" where
  "mk_note l k oct =
     \<lparr>letter = l, sharp_flat = str_mul SHARP k @ str_mul FLAT (- k), octave = oct\<rparr>"

text \<open>The natural gap, in half steps, from a letter to the next one.\<close>

definition natural_gap :: "char \<Rightarrow> int" where
  "natural_gap l = (if l = CHR ''B'' \<or> l = CHR ''E'' then 1 else 2)"


text \<open>The musical alphabet as the specification words it: A to G, and G wraps to A.\<close>

definition alphabet_successor :: "char \<Rightarrow> char" where
  "alphabet_successor l =
     (if l = CHR ''A'' then CHR ''B'' else if l = CHR ''B'' then CHR ''C''
      else if l = CHR ''C'' then CHR ''D'' else if l = CHR ''D'' then CHR ''E''
      else if l = CHR ''E'' then CHR ''F'' else if l = CHR ''F'' then CHR ''G''
      else if l = CHR ''G'' then CHR ''A'' else l)"

text \<open>
  \<^verbatim>\<open>chr\<close> where the source builds a glyph of the game font. Displayed strings are lists of
  code points; \<^verbatim>\<open>chr\<close> raises \<open>ValueError\<close> outside the range of Unicode.
\<close>

definition chr_py :: "int \<Rightarrow> error + int" where
  "chr_py i = (if 0 \<le> i \<and> i \<le> 0x10FFFF then Inr i else Inl ValueError)"

text \<open>Sequencing of computations that may raise, and a dictionary lookup.\<close>

definition then_do :: "error + 'a \<Rightarrow> ('a \<Rightarrow> error + 'b) \<Rightarrow> error + 'b" where
  "then_do m f = (case m of Inl e \<Rightarrow> Inl e | Inr x \<Rightarrow> f x)"

definition lookup :: "('k \<times> 'v) list \<Rightarrow> 'k \<Rightarrow> error + 'v" where
  "lookup d k = (case map_of d k of None \<Rightarrow> Inl KeyError | Some v \<Rightarrow> Inr v)"

text \<open>
  \<^verbatim>\<open>a & b\<close> on sets, as the list that \<^verbatim>\<open>list(...)\<close> makes of it. The order in which Python
  lists a set is not specified; the model takes the order of \<open>a\<close>.
\<close>

definition set_and :: "'a list \<Rightarrow> 'a list \<Rightarrow> 'a list" where
  "set_and a b = filter (\<lambda>x. x \<in> set b) (remdups a)"

section \<open>scale.py: ScaleInfo and the catalogue of scale types\<close>

record ScaleInfo =
  name :: string
  pattern :: string
  possible_starts_octaveless :: "string list"
  possible_starts :: "string list"

text \<open>The dataclass constructor with its \<^verbatim>\<open>__post_init__\<close>: every start in octaves 0 to 8.\<close>

definition ScaleInfo_init :: "string \<Rightarrow> string \<Rightarrow> string list \<Rightarrow> ScaleInfo" where
  "ScaleInfo_init nm pat starts =
     \<lparr>name = nm, pattern = pat, possible_starts_octaveless = starts,
      possible_starts =
        concat (map (\<lambda>possible_start. map (\<lambda>oct. possible_start @ str_int (int oct)) [0..<9])
                  starts)\<rparr>"

definition minor_starts :: "string list" where
  "minor_starts = [''Ab'', ''Eb'', ''Bb'', ''F'', ''C'', ''G'', ''D'',
                   ''A'', ''E'', ''B'', ''F#'', ''C#'', ''G#'', ''D#'', ''A#'']"

definition major_starts :: "string list" where
  "major_starts = [''Cb'', ''Gb'', ''Db'', ''Ab'', ''Eb'', ''Bb'', ''F'',
                   ''C'', ''G'', ''D'', ''A'', ''E'', ''B'', ''F#'', ''C#'']"

definition SCALE_TYPE_INFO :: "(string \<times> ScaleInfo) list" where
  "SCALE_TYPE_INFO =
     [(''q'', ScaleInfo_init ''Major'' ''WWHWWWH'' major_starts),
      (''w'', ScaleInfo_init ''Natural Minor'' ''WHWWHWW'' minor_starts),
      (''e'', ScaleInfo_init ''Harmonic Minor'' ''WHWWH3H'' minor_starts),
      (''r'', ScaleInfo_init ''Melodic Minor'' ''WHWWWWH'' minor_starts),
      (''1'', ScaleInfo_init ''Ionian'' ''WWHWWWH'' major_starts),
      (''2'', ScaleInfo_init ''Dorian'' ''WHWWWHW''
         [''Db'', ''Ab'', ''Eb'', ''Bb'', ''F'', ''C'', ''G'',
          ''D'', ''A'', ''E'', ''B'', ''F#'', ''C#'', ''G#'', ''D#'']),
      (''3'', ScaleInfo_init ''Phrygian'' ''HWWWHWW''
         [''Eb'', ''Bb'', ''F'', ''C'', ''G'', ''D'', ''A'',
          ''E'', ''B'', ''F#'', ''C#'', ''G#'', ''D#'', ''A#'', ''E#'']),
      (''4'', ScaleInfo_init ''Lydian'' ''WWWHWWH''
         [''Fb'', ''Cb'', ''Gb'', ''Db'', ''Ab'', ''Eb'', ''Bb'',
          ''F'', ''C'', ''G'', ''D'', ''A'', ''E'', ''B'', ''F#'']),
      (''5'', ScaleInfo_init ''Mixolydian'' ''WWHWWHW''
         [''Gb'', ''Db'', ''Ab'', ''Eb'', ''Bb'', ''F'', ''C'',
          ''G'', ''D'', ''A'', ''E'', ''B'', ''F#'', ''C#'', ''G#'']),
      (''6'', ScaleInfo_init ''Aeolian'' ''WHWWHWW'' minor_starts),
      (''7'', ScaleInfo_init ''Lochrian'' ''HWWHWWW''
         [''Bb'', ''F'', ''C'', ''G'', ''D'', ''A'', ''E'',
          ''B'', ''F#'', ''C#'', ''G#'', ''D#'', ''A#'', ''E#'', ''B#''])]"

definition SCALE_TYPE_KEYS :: "(string \<times> string) list" where
  "SCALE_TYPE_KEYS = map (\<lambda>(key, scale_info). (name scale_info, key)) SCALE_TYPE_INFO"

section \<open>settings.py: the settings the engine reads\<close>

record Settings =
  scale_types :: "string list"
  clefs :: "string list"
  max_sharps_key_signature :: int
  max_flats_key_signature :: int
  max_high_ledger_positions :: int
  max_low_ledger_positions :: int

text \<open>The world, of which the engine reads the settings only.\<close>

record World =
  settings :: Settings

definition DEFAULT_CONFIG :: Settings where
  "DEFAULT_CONFIG =
     \<lparr>scale_types = [''Major'', ''Natural Minor'', ''Harmonic Minor'', ''Melodic Minor''],
      clefs = [''Treble'', ''Bass''],
      max_sharps_key_signature = 4,
      max_flats_key_signature = 4,
      max_high_ledger_positions = 4,
      max_low_ledger_positions = 4\<rparr>"

text \<open>\<^verbatim>\<open>Settings.validate_ledger_lines\<close> keeps both limits between 0 and \<open>LEDGER_LINES\<close>.\<close>

definition validate_ledger_lines :: "Settings \<Rightarrow> Settings" where
  "validate_ledger_lines self =
     self\<lparr>max_low_ledger_positions := max (min (max_low_ledger_positions self) LEDGER_LINES) 0,
          max_high_ledger_positions := max (min (max_high_ledger_positions self) LEDGER_LINES) 0\<rparr>"

section \<open>scale.py: Clef and KeySignature\<close>

record Clef =
  name :: string
  symbol :: int
  lowest_note :: Note
  sharps_pattern :: "bool list"
  flats_pattern :: "bool list"

text \<open>
  The loop of \<^verbatim>\<open>Clef.all_notes\<close>: \<open>i\<close> iterations are left to run, each adding the flat,
  the natural and the sharp of the current letter and octave.
\<close>

fun all_notes_loop :: "nat \<Rightarrow> char \<Rightarrow> int \<Rightarrow> string list \<Rightarrow> string list" where
  "all_notes_loop 0 letter_now octave_now all_notes = all_notes"
| "all_notes_loop (Suc i) letter_now octave_now all_notes =
     (let temp_notes = [[letter_now] @ [FLAT], [letter_now], [letter_now] @ [SHARP]];
          temp_notes = map (\<lambda>note. note @ str_int octave_now) temp_notes;
          all_notes = all_notes @ temp_notes;
          letter_now = get_next_letter letter_now;
          octave_now = (if letter_now = CHR ''C'' then octave_now + 1 else octave_now)
      in all_notes_loop i letter_now octave_now all_notes)"

definition all_notes_list :: "Clef \<Rightarrow> World \<Rightarrow> string list" where
  "all_notes_list self world =
     (let all_notes = all_notes_loop (nat (TOTAL_NOTES - LETTERS_PER_OCTAVE))
                        (letter (lowest_note self)) (octave (lowest_note self)) []
      in py_slice all_notes
           (3 * (LEDGER_LINES - max_low_ledger_positions (settings world)))
           (int (length all_notes) -
              3 * (LEDGER_LINES - max_high_ledger_positions (settings world))))"

definition all_notes :: "Clef \<Rightarrow> World \<Rightarrow> string set" where
  "all_notes self world = set (all_notes_list self world)"

record KeySignature =
  sharps_flats :: int

definition KeySignature_init :: "int \<Rightarrow> KeySignature" where
  "KeySignature_init k = \<lparr>sharps_flats = k\<rparr>"

text \<open>\<^verbatim>\<open>KeySignature.__contains__\<close>: the letter of the note is among the sharps or flats.\<close>

definition KeySignature_contains :: "KeySignature \<Rightarrow> Note \<Rightarrow> bool" where
  "KeySignature_contains self note =
     (if sharps_flats self < 0
      then letter note \<in> set (py_slice_from ORDER_OF_SHARPS (sharps_flats self))
      else letter note \<in> set (py_slice_to ORDER_OF_SHARPS (sharps_flats self)))"

text \<open>\<^verbatim>\<open>KeySignature.__rxor__\<close>, which Python calls for \<^verbatim>\<open>note ^ key_signature\<close>.\<close>

definition KeySignature_rxor :: "KeySignature \<Rightarrow> Note \<Rightarrow> error + bool" where
  "KeySignature_rxor self note =
     (if \<not> KeySignature_contains self note then Inl NoteNotEffectedByKeySignatureError
      else Inr (- cmp_str (sharp_flat note @ ''A'') ''A'' \<noteq> cmp_int (sharps_flats self) 0))"

section \<open>scale.py: a Note on the staff\<close>

definition font_offset_number :: "Note \<Rightarrow> Clef \<Rightarrow> int" where
  "font_offset_number self clef =
     (let octave_diff = octave self - octave (lowest_note clef);
          octave_diff = octave_diff + bool_int (ord (letter self) < ord CHR ''C'')
                          - bool_int (ord (letter (lowest_note clef)) < ord CHR ''C'');
          note_diff = ord (letter self) - ord (letter (lowest_note clef)) + 1
      in octave_diff * LETTERS_PER_OCTAVE + note_diff)"

definition accidentals_symbols :: "Note \<Rightarrow> Clef \<Rightarrow> bool \<Rightarrow> error + int list" where
  "accidentals_symbols self clef with_natural =
     (if sharp_flat self = [] then
        (if \<not> with_natural then Inr []
         else then_do (chr_py (NATURALS_START + font_offset_number self clef)) (\<lambda>g. Inr [g]))
      else
        let accidental = hd (sharp_flat self)
        in then_do (case ACCIDENTALS_START accidental of None \<Rightarrow> Inl KeyError | Some st \<Rightarrow> Inr st)
             (\<lambda>st. then_do (chr_py (st + font_offset_number self clef))
               (\<lambda>g. Inr (map (\<lambda>c. if c = accidental then g else ord c) (sharp_flat self)))))"

text \<open>\<^verbatim>\<open>Note.__str__\<close>, as code points.\<close>

definition Note_str :: "Note \<Rightarrow> int list" where
  "Note_str self = map ord ([letter self] @ sharp_flat self @ '' '' @ str_int (octave self))"

definition string_form :: "Note \<Rightarrow> Clef option \<Rightarrow> KeySignature \<Rightarrow> bool \<Rightarrow> error + int list" where
  "string_form self clef key_signature with_octave =
     (case clef of
        Some c \<Rightarrow>
          then_do
            (if KeySignature_contains key_signature self then
               then_do (KeySignature_rxor key_signature self)
                 (\<lambda>differs. if differs then accidentals_symbols self c True else Inr [])
             else accidentals_symbols self c False)
            (\<lambda>accidental.
               then_do (chr_py (NOTES_START + font_offset_number self c))
                 (\<lambda>note_on_staff. Inr (accidental @ [note_on_staff])))
      | None \<Rightarrow>
          let ret = Note_str self
          in if \<not> with_octave then Inr (py_slice_to ret (- 2)) else Inr ret)"

section \<open>scale.py: the clefs and Scale\<close>

text \<open>The seven clefs of \<^verbatim>\<open>CLEFS\<close>, each with the Note that \<^verbatim>\<open>Note(...)\<close> builds for its lowest note.\<close>

definition Bass :: Clef where
  "Bass =
     \<lparr>name = ''Bass'', symbol = 0xE0A9,
      lowest_note = \<lparr>letter = CHR ''C'', sharp_flat = [], octave = 2\<rparr>,
      sharps_pattern = [False, True, False, False, True, False],
      flats_pattern = [False, True, False, True, False, True]\<rparr>"

definition Treble :: Clef where
  "Treble =
     \<lparr>name = ''Treble'', symbol = 0xE0AE,
      lowest_note = \<lparr>letter = CHR ''A'', sharp_flat = [], octave = 3\<rparr>,
      sharps_pattern = [False, True, False, False, True, False],
      flats_pattern = [False, True, False, True, False, True]\<rparr>"

definition Baritone :: Clef where
  "Baritone =
     \<lparr>name = ''Baritone'', symbol = 0xE0AB,
      lowest_note = \<lparr>letter = CHR ''E'', sharp_flat = [], octave = 2\<rparr>,
      sharps_pattern = [True, False, True, False, False, True],
      flats_pattern = [True, False, True, False, True, False]\<rparr>"

definition Tenor :: Clef where
  "Tenor =
     \<lparr>name = ''Tenor'', symbol = 0xE0AD,
      lowest_note = \<lparr>letter = CHR ''G'', sharp_flat = [], octave = 2\<rparr>,
      sharps_pattern = [True, False, True, False, True, False],
      flats_pattern = [False, True, False, True, False, True]\<rparr>"

definition Alto :: Clef where
  "Alto =
     \<lparr>name = ''Alto'', symbol = 0xE0AF,
      lowest_note = \<lparr>letter = CHR ''B'', sharp_flat = [], octave = 2\<rparr>,
      sharps_pattern = [False, True, False, False, True, False],
      flats_pattern = [False, True, False, True, False, True]\<rparr>"

definition Mezzo_Soprano :: Clef where
  "Mezzo_Soprano =
     \<lparr>name = ''Mezzo-Soprano'', symbol = 0xE0AA,
      lowest_note = \<lparr>letter = CHR ''D'', sharp_flat = [], octave = 3\<rparr>,
      sharps_pattern = [False, True, False, True, False, True],
      flats_pattern = [True, False, True, False, True, False]\<rparr>"

definition Soprano :: Clef where
  "Soprano =
     \<lparr>name = ''Soprano'', symbol = 0xE0AC,
      lowest_note = \<lparr>letter = CHR ''F'', sharp_flat = [], octave = 3\<rparr>,
      sharps_pattern = [True, False, True, False, True, False],
      flats_pattern = [True, False, True, False, True, False]\<rparr>"

definition CLEFS :: "(string \<times> Clef) list" where
  "CLEFS =
     [(''Bass'', Bass),
      (''Treble'', Treble),
      (''Baritone'', Baritone),
      (''Tenor'', Tenor),
      (''Alto'', Alto),
      (''Mezzo-Soprano'', Mezzo_Soprano),
      (''Soprano'', Soprano)]"

text \<open>
  A Scale: the fields that \<^verbatim>\<open>Scale.__init__\<close> computes. The objects it creates for the
  display (background, text, blur) belong to the game framework and are left out.
\<close>

record Scale =
  pattern :: "int list"
  starts_on :: Note
  clef :: Clef

text \<open>
  The three random picks of \<^verbatim>\<open>Scale.__init__\<close>, each made only when the argument is
  \<^verbatim>\<open>None\<close>; \<open>r\<close> is the draw of the random source. The arguments \<^verbatim>\<open>starts_on\<close> and \<^verbatim>\<open>clef\<close>
  of the source are \<open>starts\<close> and \<open>clef_name\<close> here.
\<close>

definition pick_scale_type :: "World \<Rightarrow> ScaleInfo option \<Rightarrow> nat \<Rightarrow> error + ScaleInfo" where
  "pick_scale_type world scale_type r =
     (case scale_type of
        Some t \<Rightarrow> Inr t
      | None \<Rightarrow>
          let possible_scale_types = set_and (scale_types (settings world)) (map fst SCALE_TYPE_KEYS)
          in then_do (choice possible_scale_types r)
               (\<lambda>chosen. then_do (lookup SCALE_TYPE_KEYS chosen)
                  (\<lambda>scale_name. lookup SCALE_TYPE_INFO scale_name)))"

definition pick_clef :: "World \<Rightarrow> string option \<Rightarrow> nat \<Rightarrow> error + string" where
  "pick_clef world clef_name r =
     (case clef_name of
        Some c \<Rightarrow> Inr c
      | None \<Rightarrow>
          let possible_clefs = set_and (clefs (settings world)) (map fst CLEFS)
          in choice possible_clefs r)"

definition pick_starts_on ::
  "World \<Rightarrow> ScaleInfo \<Rightarrow> string \<Rightarrow> string option \<Rightarrow> nat \<Rightarrow> error + string" where
  "pick_starts_on world scale_type clef_name starts r =
     (case starts of
        Some s \<Rightarrow> Inr s
      | None \<Rightarrow>
          then_do (lookup CLEFS clef_name)
            (\<lambda>c. let possible_starts = set_and (possible_starts scale_type) (all_notes_list c world)
                  in choice possible_starts r))"

text \<open>\<^verbatim>\<open>Scale.__init__\<close>; \<open>r1\<close>, \<open>r2\<close> and \<open>r3\<close> are the draws of the three picks.\<close>

definition Scale_init ::
  "World \<Rightarrow> ScaleInfo option \<Rightarrow> string option \<Rightarrow> string option \<Rightarrow> nat \<Rightarrow> nat \<Rightarrow> nat
     \<Rightarrow> error + Scale" where
  "Scale_init world scale_type starts clef_name r1 r2 r3 =
     then_do (pick_scale_type world scale_type r1) (\<lambda>scale_type.
       let pat = ScaleInfo.pattern scale_type
       in then_do (pick_clef world clef_name r2) (\<lambda>clef_name.
            then_do (pick_starts_on world scale_type clef_name starts r3) (\<lambda>starts.
              let int_p = map int_from_pattern pat
              in if ensure_octave int_p then
                   then_do (Note_init starts) (\<lambda>n.
                     then_do (lookup CLEFS clef_name) (\<lambda>c.
                       Inr \<lparr>pattern = int_p, starts_on = n, clef = c\<rparr>))
                 else Inl InvalidScaleSizeError)))"

section \<open>main.py: checking a guess\<close>

text \<open>
  The test of \<^verbatim>\<open>void_keyPressed\<close>: the guessed pattern string, mapped character by character,
  against the pattern of the scale on the selected boulder.
\<close>

definition guess_matches :: "Scale \<Rightarrow> string \<Rightarrow> bool" where
  "guess_matches scale guessed_pattern_str =
     (let sb_pattern = Scale.pattern scale;
          guessed_pattern = map int_from_pattern guessed_pattern_str
      in sb_pattern = guessed_pattern)"

section \<open>The words of the specification\<close>

text \<open>
  The walk of the specification over the staff: from a letter and octave to the next letter,
  the octave one greater when the walk arrives at C.
\<close>

definition next_position :: "char \<times> int \<Rightarrow> char \<times> int" where
  "next_position p =
     (alphabet_successor (fst p),
      if alphabet_successor (fst p) = CHR ''C'' then snd p + 1 else snd p)"

fun staff_walk :: "nat \<Rightarrow> char \<times> int \<Rightarrow> (char \<times> int) list" where
  "staff_walk 0 p = []"
| "staff_walk (Suc k) p = p # staff_walk k (next_position p)"

text \<open>The flat, natural and sharp spellings of a letter and octave.\<close>

definition spellings :: "char \<times> int \<Rightarrow> string list" where
  "spellings p =
     [fst p # CHR ''b'' # str_int (snd p), fst p # str_int (snd p), fst p # CHR ''#'' # str_int (snd p)]"

text \<open>A list without its first \<open>a\<close> and its last \<open>b\<close> entries.\<close>

definition trim :: "nat \<Rightarrow> nat \<Rightarrow> 'a list \<Rightarrow> 'a list" where
  "trim a b xs = drop a (take (length xs - b) xs)"

text \<open>
  The letter-octave ordering: letters below C count with the letters from C on of the next
  printed octave, so that within one group A and B carry the previous octave number; groups
  compare first, then letters.
\<close>

definition octave_group :: "Note \<Rightarrow> int" where
  "octave_group n = octave n + (if ord (letter n) < ord CHR ''C'' then 1 else 0)"

definition precedes :: "Note \<Rightarrow> Note \<Rightarrow> bool" where
  "precedes a b =
     (octave_group a < octave_group b \<or>
      (octave_group a = octave_group b \<and> ord (letter a) < ord (letter b)))"

text \<open>
  The height of a Note by pitch, accidentals apart: seven steps to the octave, the octave
  number changing at C.
\<close>

definition staff_height :: "Note \<Rightarrow> int" where
  "staff_height n = 7 * octave n + (ord (letter n) - ord CHR ''C'') mod 7"



section \<open>Facts about the primitives\<close>

lemma chr8_letters:
  "chr8 65 = CHR ''A''" "chr8 66 = CHR ''B''" "chr8 67 = CHR ''C''" "chr8 68 = CHR ''D''"
  "chr8 69 = CHR ''E''" "chr8 70 = CHR ''F''" "chr8 71 = CHR ''G''"
  by code_simp+

lemma is_letter_ord: "is_letter c \<longleftrightarrow> ord CHR ''A'' \<le> ord c \<and> ord c \<le> ord CHR ''G''"
proof
  assume "is_letter c"
  then show "ord CHR ''A'' \<le> ord c \<and> ord c \<le> ord CHR ''G''"
    by (auto simp: is_letter_def ord_def)
next
  assume a: "ord CHR ''A'' \<le> ord c \<and> ord c \<le> ord CHR ''G''"
  then have "ord c \<in> {65, 66, 67, 68, 69, 70, 71}"
    by (auto simp: ord_def)
  moreover have "c = chr8 (ord c)"
    by (simp add: chr8_def ord_def)
  ultimately have "c \<in> chr8 ` {65, 66, 67, 68, 69, 70, 71}"
    by blast
  then show "is_letter c"
    by (simp add: chr8_letters is_letter_def)
qed

lemma get_next_letter_simps:
  "get_next_letter CHR ''A'' = CHR ''B''" "get_next_letter CHR ''B'' = CHR ''C''"
  "get_next_letter CHR ''C'' = CHR ''D''" "get_next_letter CHR ''D'' = CHR ''E''"
  "get_next_letter CHR ''E'' = CHR ''F''" "get_next_letter CHR ''F'' = CHR ''G''"
  "get_next_letter CHR ''G'' = CHR ''A''"
  by (simp_all add: get_next_letter_def ord_def chr8_letters)

lemma is_letter_next: "is_letter l \<Longrightarrow> is_letter (get_next_letter l)"
  by (auto simp: is_letter_def get_next_letter_simps)

lemma get_next_letter_alphabet: "is_letter l \<Longrightarrow> get_next_letter l = alphabet_successor l"
  by (auto simp: is_letter_def get_next_letter_simps alphabet_successor_def)

section \<open>Notes built by the constructor\<close>

lemma count_accidentals_append:
  "count_accidentals (s @ t) k = count_accidentals t (count_accidentals s k)"
  by (induction s arbitrary: k) simp_all

lemma count_accidentals_sharps: "count_accidentals (replicate a CHR ''#'') k = k + int a"
  by (induction a arbitrary: k) simp_all

lemma count_accidentals_flats: "count_accidentals (replicate a CHR ''b'') k = k - int a"
  by (induction a arbitrary: k) simp_all

lemma count_accidentals_canonical:
  "count_accidentals (str_mul SHARP k @ str_mul FLAT (- k)) 0 = k"
  by (simp add: count_accidentals_append count_accidentals_sharps count_accidentals_flats
      str_mul_def SHARP_def FLAT_def)

lemma str_int_digit:
  assumes "0 \<le> oct" "oct \<le> 9"
  shows "\<exists>d. str_int oct = [d] \<and> py_int d = Some oct"
proof -
  have "oct \<in> {0, 1, 2, 3, 4, 5, 6, 7, 8, 9}" using assms by (simp; arith)
  then show ?thesis
    by (auto simp: str_int_def py_int_def ord_def)
qed

lemma py_slice_middle: "py_slice (c # s @ [d]) 1 (- 1) = s"
  by (simp add: py_slice_def slice_idx_def)

lemma Note_init_canonical:
  assumes "is_letter l" "0 \<le> oct" "oct \<le> 9"
  shows "Note_init (l # (str_mul SHARP k @ str_mul FLAT (- k)) @ str_int oct) = Inr (mk_note l k oct)"
proof -
  obtain d where d: "str_int oct = [d]" "py_int d = Some oct"
    using str_int_digit[OF assms(2,3)] by blast
  have l: "ord CHR ''A'' \<le> ord l \<and> ord l \<le> ord CHR ''G''"
    using assms(1) by (simp add: is_letter_ord)
  show ?thesis
    using l d
    by (simp add: Note_init_def py_slice_middle count_accidentals_canonical mk_note_def
        del: append_assoc)
qed

lemma get_sharp_flat_mk_note: "get_sharp_flat (mk_note l k oct) = k"
  by (cases "k > 0"; cases "k < 0")
     (auto simp: get_sharp_flat_def mk_note_def str_mul_def pm_bool_def bool_int_def SHARP_def FLAT_def
           hd_append hd_replicate)

lemma valid_note_mk_note: "valid_note n \<Longrightarrow> n = mk_note (letter n) (get_sharp_flat n) (octave n)"
proof -
  assume v: "valid_note n"
  have "sharp_flat n = str_mul SHARP (get_sharp_flat n) @ str_mul FLAT (- get_sharp_flat n)"
  proof (cases "sharp_flat n = []")
    case True
    then show ?thesis by (simp add: get_sharp_flat_def str_mul_def)
  next
    case False
    then have pos: "0 < length (sharp_flat n)" by simp
    from v consider (s) "sharp_flat n = replicate (length (sharp_flat n)) SHARP"
      | (f) "sharp_flat n = replicate (length (sharp_flat n)) FLAT"
      by (auto simp: valid_note_def)
    then show ?thesis
    proof cases
      case s
      then have "hd (sharp_flat n) = SHARP" using pos by (metis hd_replicate replicate_empty False)
      then show ?thesis using s False
        by (simp add: get_sharp_flat_def str_mul_def pm_bool_def bool_int_def)
    next
      case f
      then have "hd (sharp_flat n) = FLAT" using pos by (metis hd_replicate replicate_empty False)
      then show ?thesis using f False
        by (simp add: get_sharp_flat_def str_mul_def pm_bool_def bool_int_def SHARP_def FLAT_def)
    qed
  qed
  then show ?thesis
    by (cases n) (simp add: mk_note_def)
qed

lemma valid_mk_note: "is_letter l \<Longrightarrow> 0 \<le> oct \<Longrightarrow> oct \<le> 9 \<Longrightarrow> valid_note (mk_note l k oct)"
  by (cases "k > 0") (auto simp: valid_note_def mk_note_def str_mul_def)

lemma py_int_range: "py_int d = Some oct \<Longrightarrow> 0 \<le> oct \<and> oct \<le> 9"
  by (auto simp: py_int_def ord_def split: if_splits)

lemma Note_init_Inr:
  assumes "Note_init s = Inr n"
  shows "\<exists>c cs oct. s = c # cs \<and> is_letter c \<and> py_int (last s) = Some oct \<and>
           n = mk_note c (count_accidentals (py_slice s 1 (- 1)) 0) oct"
proof (cases s)
  case Nil
  with assms show ?thesis by (simp add: Note_init_def)
next
  case (Cons c cs)
  with assms have l: "is_letter c"
    by (simp add: Note_init_def is_letter_ord split: if_splits)
  with assms Cons obtain oct where "py_int (last s) = Some oct"
    by (auto simp: Note_init_def is_letter_ord split: option.splits)
  with assms Cons l show ?thesis
    by (auto simp: Note_init_def is_letter_ord mk_note_def Let_def)
qed

lemma Note_init_valid: "Note_init s = Inr n \<Longrightarrow> valid_note n"
  using Note_init_Inr[of s n] py_int_range valid_mk_note by blast

lemma valid_note_built:
  assumes "valid_note n"
  shows "Note_init (letter n # sharp_flat n @ str_int (octave n)) = Inr n"
proof -
  have n: "n = mk_note (letter n) (get_sharp_flat n) (octave n)"
    using assms by (rule valid_note_mk_note)
  have sf: "sharp_flat n = str_mul SHARP (get_sharp_flat n) @ str_mul FLAT (- get_sharp_flat n)"
    using arg_cong[OF n, of sharp_flat] by (simp add: mk_note_def)
  have "Note_init (letter n # (str_mul SHARP (get_sharp_flat n) @ str_mul FLAT (- get_sharp_flat n))
          @ str_int (octave n)) = Inr (mk_note (letter n) (get_sharp_flat n) (octave n))"
    using assms by (intro Note_init_canonical) (simp_all add: valid_note_def)
  then show ?thesis using n sf by simp
qed

lemma up_by_7_mk_note:
  assumes "is_letter l" "0 \<le> oct" "oct \<le> 9" "\<not> (l = CHR ''B'' \<and> oct = 9)"
    and "1 \<le> h" "h \<le> 3"
  shows "up_by (mk_note l k oct) h 7 =
           Inr (mk_note (get_next_letter l) (k + h - natural_gap l)
                  (oct + (if l = CHR ''B'' then 1 else 0)))"
proof -
  have gl: "get_sharp_flat (mk_note l k oct) = k" by (rule get_sharp_flat_mk_note)
  have flds: "letter (mk_note l k oct) = l" "octave (mk_note l k oct) = oct"
    by (simp_all add: mk_note_def)
  have o': "0 \<le> oct + (if l = CHR ''B'' then 1 else 0)" "oct + (if l = CHR ''B'' then 1 else 0) \<le> 9"
    using assms by auto
  show ?thesis
    using assms(5,6) Note_init_canonical[OF is_letter_next[OF assms(1)] o', of "k + h - natural_gap l"]
    by (simp add: up_by_def gl flds natural_gap_def del: append_assoc) 
qed

lemma up_by_other_mk_note:
  assumes "is_letter l" "0 \<le> oct" "oct \<le> 9" "1 \<le> h" "h \<le> 3" "len \<noteq> 7"
  shows "up_by (mk_note l k oct) h len = Inr (mk_note l (k + h) oct)"
proof -
  have gl: "get_sharp_flat (mk_note l k oct) = k" by (rule get_sharp_flat_mk_note)
  have flds: "letter (mk_note l k oct) = l" "octave (mk_note l k oct) = oct"
    by (simp_all add: mk_note_def)
  show ?thesis
    using assms(4,5,6) Note_init_canonical[OF assms(1,2,3), of "k + h"]
    by (simp add: up_by_def gl flds del: append_assoc) 
qed

section \<open>Facts about Note arithmetic\<close>

lemma is_letter_cases:
  assumes "is_letter l"
  obtains "l = CHR ''A''" | "l = CHR ''B''" | "l = CHR ''C''" | "l = CHR ''D''"
    | "l = CHR ''E''" | "l = CHR ''F''" | "l = CHR ''G''"
  using assms by (auto simp: is_letter_def)

lemma mk_note_sel:
  "letter (mk_note l k oct) = l" "octave (mk_note l k oct) = oct"
  by (simp_all add: mk_note_def)

lemma up_by_pattern_7_mk_note:
  assumes l: "is_letter l" and o: "0 \<le> oct" "oct \<le> 8"
    and h: "1 \<le> h1" "h1 \<le> 3" "1 \<le> h2" "h2 \<le> 3" "1 \<le> h3" "h3 \<le> 3" "1 \<le> h4" "h4 \<le> 3"
      "1 \<le> h5" "h5 \<le> 3" "1 \<le> h6" "h6 \<le> 3" "1 \<le> h7" "h7 \<le> 3"
  shows "up_by_pattern (mk_note l k oct) [h1, h2, h3, h4, h5, h6, h7] 7 =
           Inr (mk_note l (k + sum_list [h1, h2, h3, h4, h5, h6, h7] - 12) (oct + 1))"
  using l
proof (cases rule: is_letter_cases)
  case 1
  show ?thesis using o h unfolding 1
    by (simp add: up_by_7_mk_note is_letter_def get_next_letter_simps natural_gap_def)
next
  case 2
  show ?thesis using o h unfolding 2
    by (simp add: up_by_7_mk_note is_letter_def get_next_letter_simps natural_gap_def)
next
  case 3
  show ?thesis using o h unfolding 3
    by (simp add: up_by_7_mk_note is_letter_def get_next_letter_simps natural_gap_def)
next
  case 4
  show ?thesis using o h unfolding 4
    by (simp add: up_by_7_mk_note is_letter_def get_next_letter_simps natural_gap_def)
next
  case 5
  show ?thesis using o h unfolding 5
    by (simp add: up_by_7_mk_note is_letter_def get_next_letter_simps natural_gap_def)
next
  case 6
  show ?thesis using o h unfolding 6
    by (simp add: up_by_7_mk_note is_letter_def get_next_letter_simps natural_gap_def)
next
  case 7
  show ?thesis using o h unfolding 7
    by (simp add: up_by_7_mk_note is_letter_def get_next_letter_simps natural_gap_def)
qed

section \<open>Facts about the staff, key signatures, parsing and generation\<close>

lemma ord_letter_range: "is_letter l \<Longrightarrow> 65 \<le> ord l \<and> ord l \<le> 71"
  by (auto simp: is_letter_def ord_def)

lemma font_offset_number_eq:
  "font_offset_number a c =
     7 * octave_group a + ord (letter a) - (7 * octave_group (lowest_note c) + ord (letter (lowest_note c))) + 1"
  by (simp add: font_offset_number_def octave_group_def bool_int_def LETTERS_PER_OCTAVE_def
      ORDER_OF_SHARPS_def ord_def)

text \<open>The letter-octave ordering is the order of pitch height.\<close>

lemma octave_group_height:
  assumes "is_letter (letter n)"
  shows "7 * octave_group n + ord (letter n) = staff_height n + 67"
  using assms
  by (cases rule: is_letter_cases) (simp_all add: octave_group_def staff_height_def ord_def)

lemma precedes_iff_staff_height:
  assumes "is_letter (letter a)" and "is_letter (letter b)"
  shows "precedes a b \<longleftrightarrow> staff_height a < staff_height b"
proof -
  have ra: "65 \<le> ord (letter a) \<and> ord (letter a) \<le> 71"
    using assms(1) by (rule ord_letter_range)
  have rb: "65 \<le> ord (letter b) \<and> ord (letter b) \<le> 71"
    using assms(2) by (rule ord_letter_range)
  have "precedes a b \<longleftrightarrow>
          7 * octave_group a + ord (letter a) < 7 * octave_group b + ord (letter b)"
    using ra rb unfolding precedes_def by arith
  then show ?thesis
    by (simp add: octave_group_height[OF assms(1)] octave_group_height[OF assms(2)])
qed

lemma font_offset_number_bounds:
  assumes "valid_note n" and "valid_note (lowest_note c)"
  shows "- 75 \<le> font_offset_number n c \<and> font_offset_number n c \<le> 77"
proof -
  have ra: "65 \<le> ord (letter n) \<and> ord (letter n) \<le> 71"
    using assms(1) by (simp add: valid_note_def ord_letter_range)
  have rb: "65 \<le> ord (letter (lowest_note c)) \<and> ord (letter (lowest_note c)) \<le> 71"
    using assms(2) by (simp add: valid_note_def ord_letter_range)
  have oa: "0 \<le> octave n \<and> octave n \<le> 9" using assms(1) by (simp add: valid_note_def)
  have ob: "0 \<le> octave (lowest_note c) \<and> octave (lowest_note c) \<le> 9"
    using assms(2) by (simp add: valid_note_def)
  show ?thesis
    using ra rb oa ob
    by (simp add: font_offset_number_def bool_int_def LETTERS_PER_OCTAVE_def ORDER_OF_SHARPS_def)
qed

lemma chr_py_glyph:
  assumes "valid_note n" and "valid_note (lowest_note c)"
    and "st \<in> {NOTES_START, FLATS_START, NATURALS_START, SHARPS_START}"
  shows "chr_py (st + font_offset_number n c) = Inr (st + font_offset_number n c)"
  using font_offset_number_bounds[OF assms(1,2)] assms(3)
  by (auto simp: chr_py_def NOTES_START_def FLATS_START_def NATURALS_START_def SHARPS_START_def)

lemma get_sharp_flat_zero: "get_sharp_flat n = 0 \<longleftrightarrow> sharp_flat n = []"
  by (auto simp: get_sharp_flat_def pm_bool_def bool_int_def)

lemma not_in_default_key_signature: "\<not> KeySignature_contains (KeySignature_init 0) n"
  by (simp add: KeySignature_contains_def KeySignature_init_def py_slice_to_def slice_idx_def)






lemma then_do_Inr: "then_do m f = Inr y \<longleftrightarrow> (\<exists>x. m = Inr x \<and> f x = Inr y)"
  by (cases m) (simp_all add: then_do_def)


lemma all_notes_loop_walk:
  "is_letter l \<Longrightarrow>
   all_notes_loop k l oct acc = acc @ concat (map spellings (staff_walk k (l, oct)))"
proof (induction k arbitrary: l oct acc)
  case 0
  show ?case by simp
next
  case (Suc k)
  have nl: "get_next_letter l = alphabet_successor l"
    using Suc.prems by (rule get_next_letter_alphabet)
  have il: "is_letter (alphabet_successor l)"
    using is_letter_next[OF Suc.prems] nl by simp
  show ?case
    by (simp add: Let_def nl Suc.IH[OF il] spellings_def next_position_def FLAT_def SHARP_def)
qed

lemma length_walk_spellings: "length (concat (map spellings (staff_walk k p))) = 3 * k"
  by (induction k arbitrary: p) (simp_all add: spellings_def)

lemma loop_count: "nat (TOTAL_NOTES - LETTERS_PER_OCTAVE) = 10"
  by (simp add: TOTAL_NOTES_def LETTERS_PER_OCTAVE_def STAFF_LINES_def STAFF_SPACES_def
      LEDGER_LINES_def ORDER_OF_SHARPS_def)

lemma all_notes_list_trim:
  assumes "is_letter (letter (lowest_note c))"
    and "0 \<le> max_low_ledger_positions (settings w)" "max_low_ledger_positions (settings w) \<le> 4"
    and "0 \<le> max_high_ledger_positions (settings w)" "max_high_ledger_positions (settings w) \<le> 4"
  shows "all_notes_list c w =
           trim (3 * nat (LEDGER_LINES - max_low_ledger_positions (settings w)))
                (3 * nat (LEDGER_LINES - max_high_ledger_positions (settings w)))
                (concat (map spellings (staff_walk 10 (letter (lowest_note c), octave (lowest_note c)))))"
proof -
  define xs where "xs = concat (map spellings (staff_walk 10 (letter (lowest_note c), octave (lowest_note c))))"
  have len: "length xs = 30" by (simp add: xs_def length_walk_spellings)
  have loop: "all_notes_loop (nat (TOTAL_NOTES - LETTERS_PER_OCTAVE))
                (letter (lowest_note c)) (octave (lowest_note c)) [] = xs"
    by (simp add: loop_count all_notes_loop_walk[OF assms(1)] xs_def)
  define lo where "lo = max_low_ledger_positions (settings w)"
  define hi where "hi = max_high_ledger_positions (settings w)"
  have r: "0 \<le> lo" "lo \<le> 4" "0 \<le> hi" "hi \<le> 4"
    using assms(2-5) by (simp_all add: lo_def hi_def)
  have i: "slice_idx 30 (3 * (LEDGER_LINES - lo)) = 3 * nat (LEDGER_LINES - lo)"
    using r by (simp add: slice_idx_def LEDGER_LINES_def)
  have j: "slice_idx 30 (30 - 3 * (LEDGER_LINES - hi)) = 30 - 3 * nat (LEDGER_LINES - hi)"
    using r by (simp add: slice_idx_def LEDGER_LINES_def)
  have "py_slice xs (3 * (LEDGER_LINES - lo)) (int (length xs) - 3 * (LEDGER_LINES - hi))
        = trim (3 * nat (LEDGER_LINES - lo)) (3 * nat (LEDGER_LINES - hi)) xs"
    unfolding py_slice_def trim_def Let_def len of_nat_numeral i j
    by (simp add: drop_take)
  then have "py_slice xs (3 * (LEDGER_LINES - max_low_ledger_positions (settings w)))
          (int (length xs) - 3 * (LEDGER_LINES - max_high_ledger_positions (settings w)))
        = trim (3 * nat (LEDGER_LINES - max_low_ledger_positions (settings w)))
               (3 * nat (LEDGER_LINES - max_high_ledger_positions (settings w))) xs"
    by (simp only: lo_def hi_def)
  then show ?thesis
    unfolding all_notes_list_def loop Let_def xs_def .
qed

lemma Note_init_spellings:
  assumes "is_letter l" and "0 \<le> oct" and "oct \<le> 9" and "s \<in> set (spellings (l, oct))"
  shows "\<exists>k. Note_init s = Inr (mk_note l k oct)"
proof -
  have "Note_init (l # CHR ''b'' # str_int oct) = Inr (mk_note l (- 1) oct)"
    using Note_init_canonical[OF assms(1-3), of "- 1"] by (simp add: str_mul_def FLAT_def)
  moreover have "Note_init (l # str_int oct) = Inr (mk_note l 0 oct)"
    using Note_init_canonical[OF assms(1-3), of 0] by (simp add: str_mul_def)
  moreover have "Note_init (l # CHR ''#'' # str_int oct) = Inr (mk_note l 1 oct)"
    using Note_init_canonical[OF assms(1-3), of 1] by (simp add: str_mul_def SHARP_def)
  ultimately show ?thesis
    using assms(4) by (auto simp: spellings_def)
qed

lemma font_offset_number_lowest:
  "letter n = letter (lowest_note c) \<Longrightarrow> octave n = octave (lowest_note c) \<Longrightarrow>
   font_offset_number n c = 1"
  by (simp add: font_offset_number_def)

lemma font_offset_number_next:
  assumes "is_letter (letter n)"
    and "(letter n', octave n') = next_position (letter n, octave n)"
  shows "font_offset_number n' c = font_offset_number n c + 1"
  using assms(1)
proof (cases rule: is_letter_cases)
  case 1 with assms(2) show ?thesis
    by (simp add: next_position_def alphabet_successor_def font_offset_number_def bool_int_def
        ord_def LETTERS_PER_OCTAVE_def ORDER_OF_SHARPS_def)
next
  case 2 with assms(2) show ?thesis
    by (simp add: next_position_def alphabet_successor_def font_offset_number_def bool_int_def
        ord_def LETTERS_PER_OCTAVE_def ORDER_OF_SHARPS_def)
next
  case 3 with assms(2) show ?thesis
    by (simp add: next_position_def alphabet_successor_def font_offset_number_def bool_int_def
        ord_def LETTERS_PER_OCTAVE_def ORDER_OF_SHARPS_def)
next
  case 4 with assms(2) show ?thesis
    by (simp add: next_position_def alphabet_successor_def font_offset_number_def bool_int_def
        ord_def LETTERS_PER_OCTAVE_def ORDER_OF_SHARPS_def)
next
  case 5 with assms(2) show ?thesis
    by (simp add: next_position_def alphabet_successor_def font_offset_number_def bool_int_def
        ord_def LETTERS_PER_OCTAVE_def ORDER_OF_SHARPS_def)
next
  case 6 with assms(2) show ?thesis
    by (simp add: next_position_def alphabet_successor_def font_offset_number_def bool_int_def
        ord_def LETTERS_PER_OCTAVE_def ORDER_OF_SHARPS_def)
next
  case 7 with assms(2) show ?thesis
    by (simp add: next_position_def alphabet_successor_def font_offset_number_def bool_int_def
        ord_def LETTERS_PER_OCTAVE_def ORDER_OF_SHARPS_def)
qed

lemma next_position_letter: "is_letter (fst p) \<Longrightarrow> is_letter (fst (next_position p))"
  using is_letter_next[of "fst p"] by (simp add: next_position_def get_next_letter_alphabet)

lemma next_position_octave:
  "snd p \<le> snd (next_position p) \<and> snd (next_position p) \<le> snd p + 1"
  by (simp add: next_position_def)

lemma walk_position:
  assumes "is_letter (letter (lowest_note c))"
  shows "is_letter (fst ((next_position ^^ i) (letter (lowest_note c), octave (lowest_note c)))) \<and>
         octave (lowest_note c) \<le> snd ((next_position ^^ i) (letter (lowest_note c), octave (lowest_note c))) \<and>
         snd ((next_position ^^ i) (letter (lowest_note c), octave (lowest_note c))) \<le> octave (lowest_note c) + int i \<and>
         (\<forall>n. (letter n, octave n) = (next_position ^^ i) (letter (lowest_note c), octave (lowest_note c))
              \<longrightarrow> font_offset_number n c = int i + 1)"
proof (induction i)
  case 0
  show ?case using assms by (simp add: font_offset_number_lowest)
next
  case (Suc i)
  define q where "q = (next_position ^^ i) (letter (lowest_note c), octave (lowest_note c))"
  have q: "is_letter (fst q)" "octave (lowest_note c) \<le> snd q" "snd q \<le> octave (lowest_note c) + int i"
    using Suc.IH by (simp_all add: q_def)
  have off: "font_offset_number (mk_note (fst q) 0 (snd q)) c = int i + 1"
    using Suc.IH by (simp add: q_def mk_note_sel)
  have s: "(next_position ^^ Suc i) (letter (lowest_note c), octave (lowest_note c)) = next_position q"
    by (simp add: q_def)
  have "font_offset_number n c = int (Suc i) + 1"
    if "(letter n, octave n) = next_position q" for n
  proof -
    have "font_offset_number n c = font_offset_number (mk_note (fst q) 0 (snd q)) c + 1"
      by (rule font_offset_number_next) (simp_all add: mk_note_sel q that)
    then show ?thesis using off by simp
  qed
  then show ?case
    unfolding s using next_position_letter[OF q(1)] next_position_octave[of q] q(2,3) by auto
qed

lemma staff_window:
  "trim 12 12 (concat (map spellings (staff_walk 10 p))) =
     spellings ((next_position ^^ 4) p) @ spellings ((next_position ^^ 5) p)"
  by (simp add: eval_nat_numeral trim_def spellings_def)

section \<open>Facts about the catalogue\<close>

lemma pattern_ScaleInfo_init [simp]: "ScaleInfo.pattern (ScaleInfo_init nm pat starts) = pat"
  by (simp add: ScaleInfo_init_def)

text \<open>Every clef of the catalogue has a lowest note that the constructor builds from its
  string, in an octave below 9.\<close>

lemma CLEFS_lowest_notes:
  "list_all (\<lambda>(nm, c). valid_note (lowest_note c) \<and> octave (lowest_note c) \<le> 8 \<and>
       Note_init (letter (lowest_note c) # str_int (octave (lowest_note c))) = Inr (lowest_note c)) CLEFS"
  by (simp add: CLEFS_def Bass_def Treble_def Baritone_def Tenor_def Alto_def Mezzo_Soprano_def
      Soprano_def valid_note_def is_letter_def Note_init_def ord_def py_int_def py_slice_def
      slice_idx_def str_mul_def str_int_def)

lemma lookup_Treble: "lookup CLEFS ''Treble'' = Inr Treble"
  by (simp add: lookup_def CLEFS_def)

lemma valid_lowest_Treble: "valid_note (lowest_note Treble)"
  by (simp add: Treble_def valid_note_def is_letter_def)

lemma Scale_init_C_major:
  "Scale_init \<lparr>settings = DEFAULT_CONFIG\<rparr> (Some (ScaleInfo_init ''Major'' ''WWHWWWH'' major_starts))
     (Some ''C4'') (Some ''Treble'') 0 0 0 =
   Inr \<lparr>pattern = [2, 2, 1, 2, 2, 2, 1],
        starts_on = \<lparr>letter = CHR ''C'', sharp_flat = [], octave = 4\<rparr>, clef = Treble\<rparr>"
  by (simp add: Scale_init_def pick_scale_type_def pick_clef_def pick_starts_on_def then_do_def
      lookup_Treble int_from_pattern_def ensure_octave_def Note_init_def ord_def py_int_def
      py_slice_def slice_idx_def str_mul_def)



section \<open>The claims\<close>

text \<open>
  Claim C1, as the code has it. For every Note the constructor can build, letter \<open>L\<close>,
  accidental count \<open>a\<close>, octave \<open>o\<close>, other than a B in octave 9, and every step \<open>h\<close> of 1, 2
  or 3 half steps, \<^verbatim>\<open>up_by(h, 7)\<close> returns the Note whose letter is the next letter of the
  musical alphabet (G wraps to A), whose accidental count is \<open>a + h - g\<close> with \<open>g = 1\<close> when
  \<open>L\<close> is B or E and \<open>g = 2\<close> otherwise, and whose octave is \<open>o + 1\<close> when \<open>L\<close> is B and \<open>o\<close>
  otherwise.
\<close>

theorem up_by_7_next_letter:
  assumes "valid_note n" and "h \<in> {1, 2, 3}"
    and "\<not> (letter n = CHR ''B'' \<and> octave n = 9)"
  shows "\<exists>n'. up_by n h 7 = Inr n' \<and>
           letter n' = alphabet_successor (letter n) \<and>
           get_sharp_flat n' =
             get_sharp_flat n + h - (if letter n = CHR ''B'' \<or> letter n = CHR ''E'' then 1 else 2) \<and>
           octave n' = (if letter n = CHR ''B'' then octave n + 1 else octave n)"
proof -
  have n: "mk_note (letter n) (get_sharp_flat n) (octave n) = n"
    using assms(1) by (rule valid_note_mk_note[symmetric])
  have v: "is_letter (letter n)" "0 \<le> octave n" "octave n \<le> 9"
    using assms(1) by (simp_all add: valid_note_def)
  have h: "1 \<le> h" "h \<le> 3" using assms(2) by auto
  have "up_by (mk_note (letter n) (get_sharp_flat n) (octave n)) h 7 =
          Inr (mk_note (get_next_letter (letter n)) (get_sharp_flat n + h - natural_gap (letter n))
                  (octave n + (if letter n = CHR ''B'' then 1 else 0)))"
    by (rule up_by_7_mk_note[OF v assms(3) h])
  then have "up_by n h 7 =
          Inr (mk_note (get_next_letter (letter n)) (get_sharp_flat n + h - natural_gap (letter n))
                  (octave n + (if letter n = CHR ''B'' then 1 else 0)))"
    by (simp only: n)
  then show ?thesis
    by (simp add: mk_note_sel get_sharp_flat_mk_note natural_gap_def
        get_next_letter_alphabet[OF v(1)])
qed

text \<open>An instance of C1: E flat 4 up a whole step in a seven-note scale is F 4.\<close>

theorem up_by_7_next_letter_witness:
  "valid_note \<lparr>letter = CHR ''E'', sharp_flat = ''b'', octave = 4\<rparr> \<and>
   (2 :: int) \<in> {1, 2, 3} \<and>
   (\<exists>n'. up_by \<lparr>letter = CHR ''E'', sharp_flat = ''b'', octave = 4\<rparr> 2 7 = Inr n' \<and>
      letter n' = CHR ''F'' \<and> get_sharp_flat n' = 0 \<and> octave n' = 4)"
proof -
  have v: "valid_note \<lparr>letter = CHR ''E'', sharp_flat = ''b'', octave = 4\<rparr>"
    by (simp add: valid_note_def is_letter_def FLAT_def)
  have h: "(2 :: int) \<in> {1, 2, 3}" by simp
  have b: "\<not> (letter \<lparr>letter = CHR ''E'', sharp_flat = ''b'', octave = 4\<rparr> = CHR ''B'' \<and>
              octave \<lparr>letter = CHR ''E'', sharp_flat = ''b'', octave = 4\<rparr> = 9)"
    by simp
  show ?thesis
    using v h up_by_7_next_letter[OF v h b]
    by (simp add: alphabet_successor_def get_sharp_flat_def pm_bool_def bool_int_def SHARP_def)
qed

text \<open>
  Claim C1 as stated fails at B 9: the octave of the result is built as the string
  \<^verbatim>\<open>10\<close>, of which the constructor reads the last digit only, so that B 9 goes up to C 0.
\<close>

theorem up_by_7_octave_counterexample:
  "valid_note \<lparr>letter = CHR ''B'', sharp_flat = [], octave = 9\<rparr> \<and>
   up_by \<lparr>letter = CHR ''B'', sharp_flat = [], octave = 9\<rparr> 1 7 =
     Inr \<lparr>letter = CHR ''C'', sharp_flat = [], octave = 0\<rparr> \<and>
   octave \<lparr>letter = CHR ''C'', sharp_flat = [], octave = 0\<rparr> \<noteq>
     octave \<lparr>letter = CHR ''B'', sharp_flat = [], octave = 9\<rparr> + 1"
  by (simp add: valid_note_def is_letter_def up_by_def get_sharp_flat_def get_next_letter_simps
      str_mul_def str_int_def Note_init_def ord_def py_int_def py_slice_def slice_idx_def)

text \<open>
  Claim C2. For every Note with octave 0 to 8 and every pattern of seven steps, each of 1, 2
  or 3 half steps, that sum to 12, applying \<^verbatim>\<open>up_by(step, 7)\<close> for each step in turn returns
  a Note with the same letter, the same accidental count, and the octave one greater.
\<close>

theorem up_by_round_trip:
  assumes "valid_note n" and "octave n \<le> 8"
    and "length p = 7" and "\<forall>h \<in> set p. h \<in> {1, 2, 3}" and "sum_list p = 12"
  shows "\<exists>n'. up_by_pattern n p 7 = Inr n' \<and> letter n' = letter n \<and>
           get_sharp_flat n' = get_sharp_flat n \<and> octave n' = octave n + 1"
proof -
  from assms(3) obtain h1 h2 h3 h4 h5 h6 h7 where p: "p = [h1, h2, h3, h4, h5, h6, h7]"
    by (auto simp: eval_nat_numeral length_Suc_conv)
  have n: "mk_note (letter n) (get_sharp_flat n) (octave n) = n"
    using assms(1) by (rule valid_note_mk_note[symmetric])
  have v: "is_letter (letter n)" "0 \<le> octave n"
    using assms(1) by (simp_all add: valid_note_def)
  have h: "1 \<le> h1" "h1 \<le> 3" "1 \<le> h2" "h2 \<le> 3" "1 \<le> h3" "h3 \<le> 3" "1 \<le> h4" "h4 \<le> 3"
      "1 \<le> h5" "h5 \<le> 3" "1 \<le> h6" "h6 \<le> 3" "1 \<le> h7" "h7 \<le> 3"
  proof -
    have "\<forall>h \<in> set p. 1 \<le> h \<and> h \<le> 3"
      using assms(4) by auto
    then show "1 \<le> h1" "h1 \<le> 3" "1 \<le> h2" "h2 \<le> 3" "1 \<le> h3" "h3 \<le> 3" "1 \<le> h4" "h4 \<le> 3"
      "1 \<le> h5" "h5 \<le> 3" "1 \<le> h6" "h6 \<le> 3" "1 \<le> h7" "h7 \<le> 3"
      unfolding p by simp_all
  qed
  have s: "get_sharp_flat n + sum_list p - 12 = get_sharp_flat n"
    using assms(5) by simp
  have "up_by_pattern (mk_note (letter n) (get_sharp_flat n) (octave n)) p 7 =
          Inr (mk_note (letter n) (get_sharp_flat n + sum_list p - 12) (octave n + 1))"
    unfolding p by (rule up_by_pattern_7_mk_note[OF v assms(2) h])
  then have "up_by_pattern n p 7 = Inr (mk_note (letter n) (get_sharp_flat n) (octave n + 1))"
    by (simp only: n s)
  then show ?thesis
    by (simp only: mk_note_sel get_sharp_flat_mk_note sum.inject simp_thms ex_simps)
qed

text \<open>An instance of C2: the major pattern from F sharp 8 ends on F sharp 9.\<close>

theorem up_by_round_trip_witness:
  "valid_note \<lparr>letter = CHR ''F'', sharp_flat = ''#'', octave = 8\<rparr> \<and>
   octave \<lparr>letter = CHR ''F'', sharp_flat = ''#'', octave = 8\<rparr> \<le> 8 \<and>
   length [2, 2, 1, 2, 2, 2, 1 :: int] = 7 \<and>
   set [2, 2, 1, 2, 2, 2, 1 :: int] \<subseteq> {1, 2, 3} \<and>
   sum_list [2, 2, 1, 2, 2, 2, 1 :: int] = 12 \<and>
   (\<exists>n'. up_by_pattern \<lparr>letter = CHR ''F'', sharp_flat = ''#'', octave = 8\<rparr>
            [2, 2, 1, 2, 2, 2, 1] 7 = Inr n' \<and>
      letter n' = CHR ''F'' \<and> get_sharp_flat n' = 1 \<and> octave n' = 9)"
proof -
  have v: "valid_note \<lparr>letter = CHR ''F'', sharp_flat = ''#'', octave = 8\<rparr>"
    by (simp add: valid_note_def is_letter_def SHARP_def)
  have o: "octave \<lparr>letter = CHR ''F'', sharp_flat = ''#'', octave = 8\<rparr> \<le> 8"
    by simp
  have l: "length [2, 2, 1, 2, 2, 2, 1 :: int] = 7" by simp
  have h: "\<forall>h \<in> set [2, 2, 1, 2, 2, 2, 1 :: int]. h \<in> {1, 2, 3}" by simp
  have s: "sum_list [2, 2, 1, 2, 2, 2, 1 :: int] = 12" by simp
  have "\<exists>n'. up_by_pattern \<lparr>letter = CHR ''F'', sharp_flat = ''#'', octave = 8\<rparr>
            [2, 2, 1, 2, 2, 2, 1] 7 = Inr n' \<and>
      letter n' = CHR ''F'' \<and> get_sharp_flat n' = 1 \<and> octave n' = 9"
    using up_by_round_trip[OF v o l h s]
    by (simp add: get_sharp_flat_def pm_bool_def bool_int_def SHARP_def)
  moreover have "set [2, 2, 1, 2, 2, 2, 1 :: int] \<subseteq> {1, 2, 3}" by simp
  ultimately show ?thesis using v o l s by blast
qed




text \<open>
  Claim C4. A guess is mapped character by character, H to 1, W to 2, 3 to 3 and any other
  character to 0, and the check is true exactly when the list obtained equals the pattern of
  the Scale, in length and in every element. For every Scale that \<^verbatim>\<open>Scale.__init__\<close> builds,
  the pattern string of its scale type passes the check.
\<close>

theorem guess_matches_pattern:
  "int_from_pattern CHR ''H'' = 1 \<and> int_from_pattern CHR ''W'' = 2 \<and> int_from_pattern CHR ''3'' = 3 \<and>
   (ch \<notin> {CHR ''H'', CHR ''W'', CHR ''3''} \<longrightarrow> int_from_pattern ch = 0) \<and>
   (guess_matches sc g \<longleftrightarrow> map int_from_pattern g = Scale.pattern sc) \<and>
   (Scale_init w st so co r1 r2 r3 = Inr sc \<longrightarrow>
      (\<exists>t. pick_scale_type w st r1 = Inr t \<and> guess_matches sc (ScaleInfo.pattern t)))"
proof -
  have a: "int_from_pattern CHR ''H'' = 1 \<and> int_from_pattern CHR ''W'' = 2 \<and> int_from_pattern CHR ''3'' = 3"
    by (simp add: int_from_pattern_def)
  have b: "ch \<notin> {CHR ''H'', CHR ''W'', CHR ''3''} \<longrightarrow> int_from_pattern ch = 0"
    by (simp add: int_from_pattern_def)
  have c: "guess_matches sc g \<longleftrightarrow> map int_from_pattern g = Scale.pattern sc"
    by (auto simp: guess_matches_def)
  have d: "\<exists>t. pick_scale_type w st r1 = Inr t \<and> guess_matches sc (ScaleInfo.pattern t)"
    if "Scale_init w st so co r1 r2 r3 = Inr sc"
  proof -
    from that obtain t where t: "pick_scale_type w st r1 = Inr t"
      by (auto simp: Scale_init_def then_do_Inr)
    from that t have "Scale.pattern sc = map int_from_pattern (ScaleInfo.pattern t)"
      by (auto simp: Scale_init_def then_do_Inr Let_def split: if_splits)
    with t show ?thesis by (auto simp: guess_matches_def)
  qed
  from a b c d show ?thesis by blast
qed

text \<open>An instance of C4: the major scale from C 4 passes the check with its own pattern and fails it with the pattern of the natural minor.\<close>

theorem guess_matches_pattern_witness:
  "Scale_init \<lparr>settings = DEFAULT_CONFIG\<rparr> (Some (ScaleInfo_init ''Major'' ''WWHWWWH'' major_starts))
     (Some ''C4'') (Some ''Treble'') 0 0 0 =
   Inr \<lparr>pattern = [2, 2, 1, 2, 2, 2, 1],
        starts_on = \<lparr>letter = CHR ''C'', sharp_flat = [], octave = 4\<rparr>, clef = Treble\<rparr> \<and>
   guess_matches \<lparr>pattern = [2, 2, 1, 2, 2, 2, 1],
        starts_on = \<lparr>letter = CHR ''C'', sharp_flat = [], octave = 4\<rparr>, clef = Treble\<rparr> ''WWHWWWH'' \<and>
   \<not> guess_matches \<lparr>pattern = [2, 2, 1, 2, 2, 2, 1],
        starts_on = \<lparr>letter = CHR ''C'', sharp_flat = [], octave = 4\<rparr>, clef = Treble\<rparr> ''WHWWHWW'' \<and>
   int_from_pattern CHR ''x'' = 0"
proof -
  note t = guess_matches_pattern[of "CHR ''x''"
      "\<lparr>pattern = [2, 2, 1, 2, 2, 2, 1],
        starts_on = \<lparr>letter = CHR ''C'', sharp_flat = [], octave = 4\<rparr>, clef = Treble\<rparr>"
      _ "\<lparr>settings = DEFAULT_CONFIG\<rparr>" "Some (ScaleInfo_init ''Major'' ''WWHWWWH'' major_starts)"
      "Some ''C4''" "Some ''Treble''" 0 0 0]
  have a: "guess_matches \<lparr>pattern = [2, 2, 1, 2, 2, 2, 1],
        starts_on = \<lparr>letter = CHR ''C'', sharp_flat = [], octave = 4\<rparr>, clef = Treble\<rparr> ''WWHWWWH''"
    using t[of "''WWHWWWH''"] Scale_init_C_major by (simp add: pick_scale_type_def)
  have b: "\<not> guess_matches \<lparr>pattern = [2, 2, 1, 2, 2, 2, 1],
        starts_on = \<lparr>letter = CHR ''C'', sharp_flat = [], octave = 4\<rparr>, clef = Treble\<rparr> ''WHWWHWW''"
    using t[of "''WHWWHWW''"] by simp
  have c: "int_from_pattern CHR ''x'' = 0"
    using t[of "[]"] by simp
  show ?thesis using Scale_init_C_major a b c by simp
qed

text \<open>
  Claim C5. For every clef, with both ledger limits between 0 and 4, the playable notes are
  the flat, natural and sharp spellings of the ten letter and octave positions walked from
  the lowest note of the clef, without the first \<open>3 * (4 - max_low_ledger_positions)\<close> and
  the last \<open>3 * (4 - max_high_ledger_positions)\<close> of them. With both limits 0, every playable
  note parses to a Note whose staff index is above the four low ledger positions and not
  above position 13, the last one below the high ledger positions.
\<close>

theorem all_notes_window:
  assumes vl: "valid_note (lowest_note c)"
    and "0 \<le> max_low_ledger_positions (settings w)" and "max_low_ledger_positions (settings w) \<le> 4"
    and "0 \<le> max_high_ledger_positions (settings w)" and "max_high_ledger_positions (settings w) \<le> 4"
  shows "nat (TOTAL_NOTES - 7) = 10 \<and>
         all_notes c w =
           set (trim (3 * nat (4 - max_low_ledger_positions (settings w)))
                  (3 * nat (4 - max_high_ledger_positions (settings w)))
                  (concat (map spellings
                     (staff_walk (nat (TOTAL_NOTES - 7))
                        (letter (lowest_note c), octave (lowest_note c)))))) \<and>
         (octave (lowest_note c) \<le> 8 \<and>
          max_low_ledger_positions (settings w) = 0 \<and> max_high_ledger_positions (settings w) = 0 \<longrightarrow>
            (\<forall>s \<in> all_notes c w. \<exists>n. Note_init s = Inr n \<and>
               LEDGER_LINES < font_offset_number n c \<and>
               font_offset_number n c \<le> TOTAL_NOTES - LEDGER_LINES))"
proof -
  have il: "is_letter (letter (lowest_note c))"
    using vl by (simp add: valid_note_def)
  have ten: "nat (TOTAL_NOTES - 7) = 10"
    by (simp add: TOTAL_NOTES_def STAFF_LINES_def STAFF_SPACES_def LEDGER_LINES_def)
  have a: "all_notes c w =
           set (trim (3 * nat (4 - max_low_ledger_positions (settings w)))
                  (3 * nat (4 - max_high_ledger_positions (settings w)))
                  (concat (map spellings
                     (staff_walk 10 (letter (lowest_note c), octave (lowest_note c))))))"
    using all_notes_list_trim[OF il assms(2-5)] by (simp add: all_notes_def LEDGER_LINES_def)
  have b: "\<exists>n. Note_init s = Inr n \<and> LEDGER_LINES < font_offset_number n c \<and>
               font_offset_number n c \<le> TOTAL_NOTES - LEDGER_LINES"
    if o: "octave (lowest_note c) \<le> 8"
      and z: "max_low_ledger_positions (settings w) = 0" "max_high_ledger_positions (settings w) = 0"
      and s: "s \<in> all_notes c w" for s
  proof -
    define p where "p = (letter (lowest_note c), octave (lowest_note c))"
    have o0: "0 \<le> octave (lowest_note c)" using vl by (simp add: valid_note_def)
    from s a z have "s \<in> set (spellings ((next_position ^^ 4) p)) \<union> set (spellings ((next_position ^^ 5) p))"
      by (simp add: staff_window p_def)
    then obtain i where i: "i = 4 \<or> i = 5" and si: "s \<in> set (spellings ((next_position ^^ i) p))"
      by auto
    define q where "q = (next_position ^^ i) p"
    have wp: "is_letter (fst q)" "octave (lowest_note c) \<le> snd q" "snd q \<le> octave (lowest_note c) + int i"
      and off: "\<And>n. (letter n, octave n) = q \<Longrightarrow> font_offset_number n c = int i + 1"
      using walk_position[OF il, of i] by (simp_all add: q_def p_def)
    have r: "0 \<le> snd q"
      using wp(2) o0 by simp
    have lc: "65 \<le> ord (letter (lowest_note c)) \<and> ord (letter (lowest_note c)) \<le> 71"
      using il by (rule ord_letter_range)
    have lq: "65 \<le> ord (fst q) \<and> ord (fst q) \<le> 71"
      using wp(1) by (rule ord_letter_range)
    have "font_offset_number (mk_note (fst q) 0 (snd q)) c = int i + 1"
      by (rule off) (simp add: mk_note_sel)
    then have "snd q \<le> octave (lowest_note c) + 1"
      using i lc lq
      by (auto simp: font_offset_number_def mk_note_sel bool_int_def LETTERS_PER_OCTAVE_def
          ORDER_OF_SHARPS_def split: if_splits)
    then have r9: "snd q \<le> 9" using o by simp
    have "s \<in> set (spellings (fst q, snd q))" using si by (simp add: q_def)
    from Note_init_spellings[OF wp(1) r r9 this]
    obtain k where k: "Note_init s = Inr (mk_note (fst q) k (snd q))" by blast
    have "font_offset_number (mk_note (fst q) k (snd q)) c = int i + 1"
      by (rule off) (simp add: mk_note_sel)
    with i have "LEDGER_LINES < font_offset_number (mk_note (fst q) k (snd q)) c \<and>
        font_offset_number (mk_note (fst q) k (snd q)) c \<le> TOTAL_NOTES - LEDGER_LINES"
      by (auto simp: TOTAL_NOTES_def STAFF_LINES_def STAFF_SPACES_def LEDGER_LINES_def)
    with k show ?thesis by blast
  qed
  show ?thesis
  proof (intro conjI impI ballI)
    show "nat (TOTAL_NOTES - 7) = 10" by (rule ten)
    show "all_notes c w =
           set (trim (3 * nat (4 - max_low_ledger_positions (settings w)))
                  (3 * nat (4 - max_high_ledger_positions (settings w)))
                  (concat (map spellings
                     (staff_walk (nat (TOTAL_NOTES - 7))
                        (letter (lowest_note c), octave (lowest_note c))))))"
      unfolding ten by (rule a)
  next
    fix s
    assume "octave (lowest_note c) \<le> 8 \<and>
          max_low_ledger_positions (settings w) = 0 \<and> max_high_ledger_positions (settings w) = 0"
      and "s \<in> all_notes c w"
    then show "\<exists>n. Note_init s = Inr n \<and> LEDGER_LINES < font_offset_number n c \<and>
               font_offset_number n c \<le> TOTAL_NOTES - LEDGER_LINES"
      using b by blast
  qed
qed

text \<open>An instance of C5: the treble clef with both ledger limits 0 keeps the spellings of E 4 and F 4, the first line and the first space of the staff.\<close>

theorem all_notes_window_witness:
  "all_notes Treble \<lparr>settings = DEFAULT_CONFIG\<lparr>max_high_ledger_positions := 0,
                                                  max_low_ledger_positions := 0\<rparr>\<rparr> =
     set [''Eb4'', ''E4'', ''E#4'', ''Fb4'', ''F4'', ''F#4''] \<and>
   (\<exists>n. Note_init ''F#4'' = Inr n \<and> LEDGER_LINES < font_offset_number n Treble \<and>
        font_offset_number n Treble \<le> TOTAL_NOTES - LEDGER_LINES)"
proof -
  let ?w = "\<lparr>settings = DEFAULT_CONFIG\<lparr>max_high_ledger_positions := 0, max_low_ledger_positions := 0\<rparr>\<rparr>"
  have r: "0 \<le> max_low_ledger_positions (settings ?w)" "max_low_ledger_positions (settings ?w) \<le> 4"
    "0 \<le> max_high_ledger_positions (settings ?w)" "max_high_ledger_positions (settings ?w) \<le> 4"
    by (simp_all add: DEFAULT_CONFIG_def)
  note t = all_notes_window[OF valid_lowest_Treble r]
  have a: "all_notes Treble ?w = set [''Eb4'', ''E4'', ''E#4'', ''Fb4'', ''F4'', ''F#4'']"
    using t
    by (simp add: DEFAULT_CONFIG_def Treble_def eval_nat_numeral trim_def spellings_def
        next_position_def alphabet_successor_def str_int_def)
  have "''F#4'' \<in> all_notes Treble ?w"
    unfolding a by simp
  moreover have "octave (lowest_note Treble) \<le> 8 \<and> max_low_ledger_positions (settings ?w) = 0 \<and>
      max_high_ledger_positions (settings ?w) = 0"
    by (simp add: Treble_def DEFAULT_CONFIG_def)
  ultimately have "\<exists>n. Note_init ''F#4'' = Inr n \<and> LEDGER_LINES < font_offset_number n Treble \<and>
        font_offset_number n Treble \<le> TOTAL_NOTES - LEDGER_LINES"
    using t by blast
  with a show ?thesis by blast
qed

text \<open>
  Claim C6. For every clef and every two Notes \<open>a\<close> and \<open>b\<close>: when \<open>a\<close> precedes \<open>b\<close> in the
  letter-octave ordering (octave groups compared first, A and B counted with the C to G of
  the next printed octave, then letters from A to G), the staff index of \<open>a\<close> under the clef
  is strictly below that of \<open>b\<close>.
\<close>

theorem font_offset_number_increasing:
  assumes "valid_note a" and "valid_note b" and "precedes a b"
  shows "font_offset_number a c < font_offset_number b c"
proof -
  have ra: "65 \<le> ord (letter a) \<and> ord (letter a) \<le> 71"
    using assms(1) by (simp add: valid_note_def ord_letter_range)
  have rb: "65 \<le> ord (letter b) \<and> ord (letter b) \<le> 71"
    using assms(2) by (simp add: valid_note_def ord_letter_range)
  have "7 * octave_group a + ord (letter a) < 7 * octave_group b + ord (letter b)"
    using assms(3) ra rb unfolding precedes_def by arith
  then show ?thesis
    by (simp add: font_offset_number_eq)
qed

text \<open>An instance of C6 on the treble clef: B 3 precedes C sharp 4.\<close>

theorem font_offset_number_increasing_witness:
  "valid_note \<lparr>letter = CHR ''B'', sharp_flat = [], octave = 3\<rparr> \<and>
   valid_note \<lparr>letter = CHR ''C'', sharp_flat = ''#'', octave = 4\<rparr> \<and>
   precedes \<lparr>letter = CHR ''B'', sharp_flat = [], octave = 3\<rparr>
     \<lparr>letter = CHR ''C'', sharp_flat = ''#'', octave = 4\<rparr> \<and>
   font_offset_number \<lparr>letter = CHR ''B'', sharp_flat = [], octave = 3\<rparr> Treble <
     font_offset_number \<lparr>letter = CHR ''C'', sharp_flat = ''#'', octave = 4\<rparr> Treble"
proof -
  have a: "valid_note \<lparr>letter = CHR ''B'', sharp_flat = [], octave = 3\<rparr>"
    by (simp add: valid_note_def is_letter_def)
  have b: "valid_note \<lparr>letter = CHR ''C'', sharp_flat = ''#'', octave = 4\<rparr>"
    by (simp add: valid_note_def is_letter_def SHARP_def)
  have p: "precedes \<lparr>letter = CHR ''B'', sharp_flat = [], octave = 3\<rparr>
     \<lparr>letter = CHR ''C'', sharp_flat = ''#'', octave = 4\<rparr>"
    by (simp add: precedes_def octave_group_def ord_def)
  show ?thesis
    using a b p font_offset_number_increasing[OF a b p, of Treble] by simp
qed




text \<open>
  Claim C8. For every Note, every step of 1, 2 or 3 half steps and every scale length among
  5, 6, 8 and 12, \<^verbatim>\<open>up_by\<close> returns a Note with the same letter and the same octave, whose
  accidental count is that of the Note plus the step.
\<close>

theorem up_by_other_lengths:
  assumes "valid_note n" and "h \<in> {1, 2, 3}" and "scale_length \<in> {5, 6, 8, 12}"
  shows "\<exists>n'. up_by n h scale_length = Inr n' \<and> letter n' = letter n \<and>
           octave n' = octave n \<and> get_sharp_flat n' = get_sharp_flat n + h"
proof -
  have n: "mk_note (letter n) (get_sharp_flat n) (octave n) = n"
    using assms(1) by (rule valid_note_mk_note[symmetric])
  have v: "is_letter (letter n)" "0 \<le> octave n" "octave n \<le> 9"
    using assms(1) by (simp_all add: valid_note_def)
  have h: "1 \<le> h" "h \<le> 3" using assms(2) by auto
  have len: "scale_length \<noteq> 7" using assms(3) by auto
  have "up_by (mk_note (letter n) (get_sharp_flat n) (octave n)) h scale_length =
          Inr (mk_note (letter n) (get_sharp_flat n + h) (octave n))"
    by (rule up_by_other_mk_note[OF v h len])
  then have "up_by n h scale_length = Inr (mk_note (letter n) (get_sharp_flat n + h) (octave n))"
    by (simp only: n)
  then show ?thesis
    by (simp add: mk_note_sel get_sharp_flat_mk_note)
qed

text \<open>An instance of C8: B 9 up an augmented second in a chromatic scale stays a B in octave 9.\<close>

theorem up_by_other_lengths_witness:
  "valid_note \<lparr>letter = CHR ''B'', sharp_flat = [], octave = 9\<rparr> \<and>
   (3 :: int) \<in> {1, 2, 3} \<and> (12 :: int) \<in> {5, 6, 8, 12} \<and>
   (\<exists>n'. up_by \<lparr>letter = CHR ''B'', sharp_flat = [], octave = 9\<rparr> 3 12 = Inr n' \<and>
      letter n' = CHR ''B'' \<and> octave n' = 9 \<and> get_sharp_flat n' = 3)"
proof -
  have v: "valid_note \<lparr>letter = CHR ''B'', sharp_flat = [], octave = 9\<rparr>"
    by (simp add: valid_note_def is_letter_def)
  have h: "(3 :: int) \<in> {1, 2, 3}" by simp
  have l: "(12 :: int) \<in> {5, 6, 8, 12}" by simp
  show ?thesis
    using v h l up_by_other_lengths[OF v h l]
    by (simp add: get_sharp_flat_def)
qed

text \<open>
  Claim C9. For every Note with accidental count zero whose letter is covered by a key
  signature with a count of sharps or flats other than zero, \<^verbatim>\<open>note ^ key_signature\<close> is
  \<^verbatim>\<open>True\<close>, and the staff form of the Note is the natural glyph at the staff index of the
  Note followed by the note glyph.
\<close>

theorem natural_mismatches_key_signature:
  assumes "valid_note n" and "valid_note (lowest_note c)"
    and "get_sharp_flat n = 0" and "KeySignature_contains ks n" and "sharps_flats ks \<noteq> 0"
  shows "KeySignature_rxor ks n = Inr True \<and>
         string_form n (Some c) ks with_octave =
           Inr [NATURALS_START + font_offset_number n c, NOTES_START + font_offset_number n c]"
proof -
  have sf: "sharp_flat n = []" using assms(3) by (simp add: get_sharp_flat_zero)
  have x: "KeySignature_rxor ks n = Inr True"
    using assms(4,5) sf
    by (simp add: KeySignature_rxor_def cmp_str_def cmp_int_def bool_int_def)
  have g1: "chr_py (NATURALS_START + font_offset_number n c) = Inr (NATURALS_START + font_offset_number n c)"
    by (rule chr_py_glyph[OF assms(1,2)]) simp
  have g2: "chr_py (NOTES_START + font_offset_number n c) = Inr (NOTES_START + font_offset_number n c)"
    by (rule chr_py_glyph[OF assms(1,2)]) simp
  show ?thesis
    using assms(4) sf x g1 g2
    by (simp add: string_form_def accidentals_symbols_def then_do_def)
qed

text \<open>An instance of C9: F 4 under one sharp on the treble clef shows a natural glyph.\<close>

theorem natural_mismatches_key_signature_witness:
  "KeySignature_rxor (KeySignature_init 1) \<lparr>letter = CHR ''F'', sharp_flat = [], octave = 4\<rparr> = Inr True \<and>
   string_form \<lparr>letter = CHR ''F'', sharp_flat = [], octave = 4\<rparr> (Some Treble) (KeySignature_init 1) False =
     Inr [0xE046, 0xE006]"
proof -
  have v: "valid_note \<lparr>letter = CHR ''F'', sharp_flat = [], octave = 4\<rparr>"
    by (simp add: valid_note_def is_letter_def)
  have g: "get_sharp_flat \<lparr>letter = CHR ''F'', sharp_flat = [], octave = 4\<rparr> = 0"
    by (simp add: get_sharp_flat_def)
  have k: "KeySignature_contains (KeySignature_init 1) \<lparr>letter = CHR ''F'', sharp_flat = [], octave = 4\<rparr>"
    by (simp add: KeySignature_contains_def KeySignature_init_def py_slice_to_def slice_idx_def
        ORDER_OF_SHARPS_def)
  have z: "sharps_flats (KeySignature_init 1) \<noteq> 0"
    by (simp add: KeySignature_init_def)
  have o: "font_offset_number \<lparr>letter = CHR ''F'', sharp_flat = [], octave = 4\<rparr> Treble = 6"
    by (simp add: font_offset_number_def Treble_def bool_int_def ord_def LETTERS_PER_OCTAVE_def
        ORDER_OF_SHARPS_def)
  show ?thesis
    using natural_mismatches_key_signature[OF v valid_lowest_Treble g k z, of False]
    by (simp add: o NATURALS_START_def NOTES_START_def)
qed

text \<open>
  Claim C10. No Note is in the key signature with count 0, the default one; so
  \<^verbatim>\<open>string_form\<close> with a clef and that key signature takes the branch for a letter that is
  not covered: no natural glyph for a Note without accidentals, and one sharp or flat glyph
  for each accidental of the Note, before the note glyph.
\<close>

theorem default_key_signature_uncovered:
  "\<not> KeySignature_contains (KeySignature_init 0) n \<and>
   string_form n (Some c) (KeySignature_init 0) with_octave =
     then_do (accidentals_symbols n c False)
       (\<lambda>accidental. then_do (chr_py (NOTES_START + font_offset_number n c))
          (\<lambda>note_on_staff. Inr (accidental @ [note_on_staff]))) \<and>
   (valid_note n \<and> valid_note (lowest_note c) \<longrightarrow>
      string_form n (Some c) (KeySignature_init 0) with_octave =
        Inr (replicate (nat \<bar>get_sharp_flat n\<bar>)
               ((if 0 < get_sharp_flat n then SHARPS_START else FLATS_START) + font_offset_number n c)
             @ [NOTES_START + font_offset_number n c]))"
proof (intro conjI impI)
  show "\<not> KeySignature_contains (KeySignature_init 0) n"
    by (rule not_in_default_key_signature)
  show u: "string_form n (Some c) (KeySignature_init 0) with_octave =
     then_do (accidentals_symbols n c False)
       (\<lambda>accidental. then_do (chr_py (NOTES_START + font_offset_number n c))
          (\<lambda>note_on_staff. Inr (accidental @ [note_on_staff])))"
    by (simp add: string_form_def not_in_default_key_signature)
  assume v: "valid_note n \<and> valid_note (lowest_note c)"
  then have vn: "valid_note n" and vc: "valid_note (lowest_note c)" by simp_all
  have g2: "chr_py (NOTES_START + font_offset_number n c) = Inr (NOTES_START + font_offset_number n c)"
    by (rule chr_py_glyph[OF vn vc]) simp
  have gs: "chr_py (SHARPS_START + font_offset_number n c) = Inr (SHARPS_START + font_offset_number n c)"
    by (rule chr_py_glyph[OF vn vc]) simp
  have gf: "chr_py (FLATS_START + font_offset_number n c) = Inr (FLATS_START + font_offset_number n c)"
    by (rule chr_py_glyph[OF vn vc]) simp
  have a: "accidentals_symbols n c False =
        Inr (replicate (nat \<bar>get_sharp_flat n\<bar>)
               ((if 0 < get_sharp_flat n then SHARPS_START else FLATS_START) + font_offset_number n c))"
  proof (cases "sharp_flat n = []")
    case True
    then show ?thesis by (simp add: accidentals_symbols_def get_sharp_flat_def)
  next
    case False
    from vn consider (s) "sharp_flat n = replicate (length (sharp_flat n)) SHARP"
      | (f) "sharp_flat n = replicate (length (sharp_flat n)) FLAT"
      by (auto simp: valid_note_def)
    then show ?thesis
    proof cases
      case s
      have hd: "hd (sharp_flat n) = SHARP" using s False by (metis hd_replicate replicate_empty)
      have m: "map (\<lambda>ch. if ch = SHARP then SHARPS_START + font_offset_number n c else ord ch) (sharp_flat n)
                 = replicate (length (sharp_flat n)) (SHARPS_START + font_offset_number n c)"
        by (subst s) simp
      have ne: "SHARP \<noteq> FLAT" by (simp add: FLAT_def SHARP_def)
      show ?thesis using False hd gs m ne
        by (simp add: accidentals_symbols_def get_sharp_flat_def then_do_def ACCIDENTALS_START_def
            pm_bool_def bool_int_def)
    next
      case f
      have hd: "hd (sharp_flat n) = FLAT" using f False by (metis hd_replicate replicate_empty)
      have m: "map (\<lambda>ch. if ch = FLAT then FLATS_START + font_offset_number n c else ord ch) (sharp_flat n)
                 = replicate (length (sharp_flat n)) (FLATS_START + font_offset_number n c)"
        by (subst f) simp
      have ne: "FLAT \<noteq> SHARP" by (simp add: FLAT_def SHARP_def)
      show ?thesis using False hd gf m ne
        by (simp add: accidentals_symbols_def get_sharp_flat_def then_do_def ACCIDENTALS_START_def
            pm_bool_def bool_int_def)
    qed
  qed
  show "string_form n (Some c) (KeySignature_init 0) with_octave =
        Inr (replicate (nat \<bar>get_sharp_flat n\<bar>)
               ((if 0 < get_sharp_flat n then SHARPS_START else FLATS_START) + font_offset_number n c)
             @ [NOTES_START + font_offset_number n c])"
    unfolding u a g2 by (simp add: then_do_def)
qed

text \<open>Instances of C10 on the treble clef: B double flat 4 shows two flat glyphs, C 4 shows its note glyph alone.\<close>

theorem default_key_signature_uncovered_witness:
  "string_form \<lparr>letter = CHR ''B'', sharp_flat = ''bb'', octave = 4\<rparr> (Some Treble)
     (KeySignature_init 0) False = Inr [0xE029, 0xE029, 0xE009] \<and>
   string_form \<lparr>letter = CHR ''C'', sharp_flat = [], octave = 4\<rparr> (Some Treble)
     (KeySignature_init 0) False = Inr [0xE003]"
proof -
  have v1: "valid_note \<lparr>letter = CHR ''B'', sharp_flat = ''bb'', octave = 4\<rparr>"
    by (simp add: valid_note_def is_letter_def FLAT_def)
  have v2: "valid_note \<lparr>letter = CHR ''C'', sharp_flat = [], octave = 4\<rparr>"
    by (simp add: valid_note_def is_letter_def)
  have o1: "font_offset_number \<lparr>letter = CHR ''B'', sharp_flat = ''bb'', octave = 4\<rparr> Treble = 9"
    by (simp add: font_offset_number_def Treble_def bool_int_def ord_def LETTERS_PER_OCTAVE_def
        ORDER_OF_SHARPS_def)
  have o2: "font_offset_number \<lparr>letter = CHR ''C'', sharp_flat = [], octave = 4\<rparr> Treble = 3"
    by (simp add: font_offset_number_def Treble_def bool_int_def ord_def LETTERS_PER_OCTAVE_def
        ORDER_OF_SHARPS_def)
  have g1: "get_sharp_flat \<lparr>letter = CHR ''B'', sharp_flat = ''bb'', octave = 4\<rparr> = - 2"
    by (simp add: get_sharp_flat_def pm_bool_def bool_int_def SHARP_def)
  have g2: "get_sharp_flat \<lparr>letter = CHR ''C'', sharp_flat = [], octave = 4\<rparr> = 0"
    by (simp add: get_sharp_flat_def)
  have s1: "string_form \<lparr>letter = CHR ''B'', sharp_flat = ''bb'', octave = 4\<rparr> (Some Treble)
     (KeySignature_init 0) False = Inr [0xE029, 0xE029, 0xE009]"
    using default_key_signature_uncovered[THEN conjunct2, THEN conjunct2, THEN mp,
        OF conjI[OF v1 valid_lowest_Treble], of False]
    by (simp add: o1 g1 FLATS_START_def NOTES_START_def eval_nat_numeral)
  have s2: "string_form \<lparr>letter = CHR ''C'', sharp_flat = [], octave = 4\<rparr> (Some Treble)
     (KeySignature_init 0) False = Inr [0xE003]"
    using default_key_signature_uncovered[THEN conjunct2, THEN conjunct2, THEN mp,
        OF conjI[OF v2 valid_lowest_Treble], of False]
    by (simp add: o2 g2 NOTES_START_def)
  show ?thesis using s1 s2 by simp
qed

end
